theory Spec2Isabelle
  imports Main "HOL-Library.Word"
begin

section \<open>The driver \<open>hdomes.c\<close>\<close>

text \<open>
  The repository is one C file, \<^verbatim>\<open>src/bin/source/hdomes.c\<close>: a \<^verbatim>\<open>main\<close> that parses its
  arguments and sequences four calls into the Leptonica imaging library
  (\<^verbatim>\<open>pixRead\<close>, \<^verbatim>\<open>pixInvert\<close>, \<^verbatim>\<open>pixHDome\<close>, \<^verbatim>\<open>pixWrite\<close>), with an error check after
  each. The library is not part of the repository, so the driver is modelled over an
  arbitrary library: a record of functions, one per call the driver makes.
\<close>

subsection \<open>The C library's \<open>atoi\<close>\<close>

text \<open>
  \<^verbatim>\<open>l_int32 h; h = atoi(argv[3]);\<close> (lines 5 and 15): the height is a 32-bit signed
  integer, here a \<open>32 word\<close> read with \<open>sint\<close>. \<^verbatim>\<open>atoi\<close> belongs to the C library;
  \<^verbatim>\<open>atoi(s)\<close> is \<^verbatim>\<open>(int)strtol(s, NULL, 10)\<close>. \<open>strtol\<close> skips leading white space, reads
  one optional sign and then the longest run of decimal digits; with no digit the result
  is 0, and nothing reports it; a value outside the range of \<^verbatim>\<open>long\<close> (64 bits) is
  replaced by the nearest end of the range. The conversion to \<^verbatim>\<open>int\<close> keeps the low 32
  bits: \<^verbatim>\<open>2147483648\<close> becomes \<open>-2147483648\<close>, \<^verbatim>\<open>4294967297\<close> becomes 1.
\<close>

type_synonym l_int32 = "32 word"

definition isspace :: "char \<Rightarrow> bool" where
  "isspace c = (c \<in> set [CHR '' '', CHR 0x09, CHR 0x0A, CHR 0x0B, CHR 0x0C, CHR 0x0D])"

definition isdigit :: "char \<Rightarrow> bool" where
  "isdigit c = (c \<in> set ''0123456789'')"

definition digit_val :: "char \<Rightarrow> int" where
  "digit_val c = int (of_char c) - 48"

fun digits_val :: "int \<Rightarrow> string \<Rightarrow> int" where
  "digits_val acc [] = acc"
| "digits_val acc (c # cs) =
     (if isdigit c then digits_val (acc * 10 + digit_val c) cs else acc)"

text \<open>The number written at the start of the string, before any range applies.\<close>

definition written_value :: "string \<Rightarrow> int" where
  "written_value s =
     (case dropWhile isspace s of
        [] \<Rightarrow> 0
      | c # cs \<Rightarrow>
          if c = CHR ''-'' then - digits_val 0 cs
          else if c = CHR ''+'' then digits_val 0 cs
          else digits_val 0 (c # cs))"

definition LONG_MIN :: int where
  "LONG_MIN = - (2 ^ 63)"

definition LONG_MAX :: int where
  "LONG_MAX = 2 ^ 63 - 1"

definition strtol :: "string \<Rightarrow> int" where
  "strtol s = max LONG_MIN (min LONG_MAX (written_value s))"

definition atoi :: "string \<Rightarrow> l_int32" where
  "atoi s = word_of_int (strtol s)"



subsection \<open>The library interface and the observable behaviour of a run\<close>

text \<open>
  \<open>'pix\<close> is the library's image (\<^verbatim>\<open>PIX *\<close>; \<^verbatim>\<open>NULL\<close> is \<open>None\<close>), \<open>'fs\<close> the file
  system. \<open>pixHDome\<close> takes the height and the connectivity as 32-bit integers, as the
  driver passes them. \<open>pixWrite\<close> returns the library's status (0 for success) and the
  file system it leaves. The other calls do not write files.
\<close>

datatype format = IFF_PNG

record ('pix, 'fs) leptonica =
  pixRead :: "string \<Rightarrow> 'fs \<Rightarrow> 'pix option"
  pixGetDepth :: "'pix \<Rightarrow> int"
  pixInvert :: "'pix \<Rightarrow> 'pix option"
  pixHDome :: "'pix \<Rightarrow> l_int32 \<Rightarrow> l_int32 \<Rightarrow> 'pix option"
  pixWrite :: "string \<Rightarrow> 'pix \<Rightarrow> format \<Rightarrow> 'fs \<Rightarrow> int \<times> 'fs"

text \<open>
  What a run does, in order: each library call with its arguments, and each message
  given to \<^verbatim>\<open>L_ERROR\<close> (the library's macro that prints on the standard error stream).
\<close>

datatype 'pix event =
    Ev_L_ERROR string
  | Ev_pixRead string
  | Ev_pixGetDepth 'pix
  | Ev_pixInvert 'pix
  | Ev_pixHDome 'pix l_int32 l_int32
  | Ev_pixWrite string 'pix format
  | Ev_pixDestroy 'pix

record ('pix, 'fs) outcome =
  exit_code :: int
  files :: 'fs
  calls :: "'pix event list"

subsection \<open>\<open>main\<close>\<close>

text \<open>
  \<^verbatim>\<open>main\<close>, lines 3 to 59, branch by branch. \<open>argv\<close> is the whole argument vector
  (\<open>argv ! 0\<close> the program's name), so \<^verbatim>\<open>argc\<close> is its length; \<open>h\<close> is the
  \<^verbatim>\<open>l_int32\<close> of line 5, and the connectivity 4 a 32-bit integer too. Each branch gives
  the value returned, the file system left behind and the calls made up to the return.
\<close>

definition main :: "('pix, 'fs) leptonica \<Rightarrow> string list \<Rightarrow> 'fs \<Rightarrow> ('pix, 'fs) outcome" where
  "main lib argv fs =
     (if length argv \<noteq> 4 then
        \<lparr>exit_code = 1, files = fs,
         calls = [Ev_L_ERROR ''Syntax: hdomes filein fileout h'']\<rparr>
      else
        let filein = argv ! 1; fileout = argv ! 2; h = atoi (argv ! 3) in
        (case pixRead lib filein fs of
          None \<Rightarrow>
            \<lparr>exit_code = 1, files = fs,
             calls = [Ev_pixRead filein, Ev_L_ERROR ''pixRead failed for input file'']\<rparr>
        | Some pixs \<Rightarrow>
            if pixGetDepth lib pixs \<noteq> 8 then
              \<lparr>exit_code = 1, files = fs,
               calls = [Ev_pixRead filein, Ev_pixGetDepth pixs,
                        Ev_L_ERROR ''Input image is not 8 bpp grayscale'',
                        Ev_pixDestroy pixs]\<rparr>
            else
              (case pixInvert lib pixs of
                None \<Rightarrow>
                  \<lparr>exit_code = 1, files = fs,
                   calls = [Ev_pixRead filein, Ev_pixGetDepth pixs, Ev_pixInvert pixs,
                            Ev_L_ERROR ''pixInvert failed'', Ev_pixDestroy pixs]\<rparr>
              | Some pixInverted \<Rightarrow>
                  (case pixHDome lib pixInverted h 4 of
                    None \<Rightarrow>
                      \<lparr>exit_code = 1, files = fs,
                       calls = [Ev_pixRead filein, Ev_pixGetDepth pixs, Ev_pixInvert pixs,
                                Ev_pixHDome pixInverted h 4,
                                Ev_L_ERROR ''pixHDome failed'',
                                Ev_pixDestroy pixs, Ev_pixDestroy pixInverted]\<rparr>
                  | Some pixd \<Rightarrow>
                      (case pixWrite lib fileout pixd IFF_PNG fs of
                        (rc, fs') \<Rightarrow>
                          if rc \<noteq> 0 then
                            \<lparr>exit_code = 1, files = fs',
                             calls = [Ev_pixRead filein, Ev_pixGetDepth pixs,
                                      Ev_pixInvert pixs, Ev_pixHDome pixInverted h 4,
                                      Ev_pixWrite fileout pixd IFF_PNG,
                                      Ev_L_ERROR ''pixWrite failed for output file'',
                                      Ev_pixDestroy pixs, Ev_pixDestroy pixInverted,
                                      Ev_pixDestroy pixd]\<rparr>
                          else
                            \<lparr>exit_code = 0, files = fs',
                             calls = [Ev_pixRead filein, Ev_pixGetDepth pixs,
                                      Ev_pixInvert pixs, Ev_pixHDome pixInverted h 4,
                                      Ev_pixWrite fileout pixd IFF_PNG,
                                      Ev_pixDestroy pixs, Ev_pixDestroy pixInverted,
                                      Ev_pixDestroy pixd]\<rparr>)))))"

text \<open>
  Every stage of the pipeline succeeds: the file is read, it is 8 bits deep, the
  inversion and the h-dome transform return an image, and the write returns 0.
\<close>

definition stages_succeed ::
  "('pix, 'fs) leptonica \<Rightarrow> string \<Rightarrow> string \<Rightarrow> l_int32 \<Rightarrow> 'fs \<Rightarrow> bool" where
  "stages_succeed lib filein fileout h fs =
     (case pixRead lib filein fs of
        None \<Rightarrow> False
      | Some pixs \<Rightarrow>
          pixGetDepth lib pixs = 8 \<and>
          (case pixInvert lib pixs of
             None \<Rightarrow> False
           | Some pixInverted \<Rightarrow>
               (case pixHDome lib pixInverted h 4 of
                  None \<Rightarrow> False
                | Some pixd \<Rightarrow> fst (pixWrite lib fileout pixd IFF_PNG fs) = 0)))"

text \<open>
  A string that \<open>strtol\<close> reads a number from: after the white space and one optional
  sign, it starts with a decimal digit.
\<close>

definition numeric_start :: "string \<Rightarrow> bool" where
  "numeric_start s =
     (case dropWhile isspace s of
        [] \<Rightarrow> False
      | c # cs \<Rightarrow>
          if c = CHR ''-'' \<or> c = CHR ''+'' then
            (case cs of [] \<Rightarrow> False | d # ds \<Rightarrow> isdigit d)
          else isdigit c)"

section \<open>The imaging operations, modelled from the specification\<close>

text \<open>
  \<^verbatim>\<open>pixRead\<close>, \<^verbatim>\<open>pixInvert\<close>, \<^verbatim>\<open>pixHDome\<close> and \<^verbatim>\<open>pixWrite\<close> are functions of the Leptonica
  library; none of their code is in this repository. The specification describes them at
  design level (sections 3 and 4), and the definitions of this section follow its words.
  Every statement about them is a statement about that description.
\<close>

subsection \<open>Image buffer\<close>

text \<open>
  Modelled from the spec: the Image Buffer of section 3 (the library's \<^verbatim>\<open>PIX\<close> is
  missing): width, height, bit depth and the samples, unsigned 8-bit values in row-major
  order.
\<close>

type_synonym sample = "8 word"

record image_buffer =
  width :: nat
  height :: nat
  bitDepth :: nat
  samples :: "sample list"

text \<open>The invariant of section 3 on a buffer of this pipeline.\<close>

definition valid_buffer :: "image_buffer \<Rightarrow> bool" where
  "valid_buffer B =
     (bitDepth B = 8 \<and> 0 < width B \<and> 0 < height B \<and>
      length (samples B) = width B * height B)"

subsection \<open>Invert\<close>

text \<open>
  Modelled from the spec: the point transform of section 4.2 (the library's
  \<^verbatim>\<open>pixInvert\<close> is missing): a new buffer in which every sample \<open>s\<close> is \<open>255 - s\<close>.
\<close>

definition invert :: "image_buffer \<Rightarrow> image_buffer" where
  "invert B = B\<lparr>samples := map (\<lambda>s. 255 - s) (samples B)\<rparr>"

subsection \<open>H-dome\<close>

text \<open>
  Modelled from the spec: the connectivity of section 3 and the dilation step of
  section 4.3 (the library's \<^verbatim>\<open>pixHDome\<close> is missing). A pixel is its row-major index
  \<open>i\<close>, at column \<open>i mod W\<close> of row \<open>i div W\<close>. Its neighbours are the pixels at the
  connectivity's offsets that lie inside the image; a neighbour outside is absent.
\<close>

datatype connectivity = Conn4 | Conn8

fun offsets :: "connectivity \<Rightarrow> (int \<times> int) list" where
  "offsets Conn4 = [(-1, 0), (1, 0), (0, -1), (0, 1)]"
| "offsets Conn8 =
     [(-1, 0), (1, 0), (0, -1), (0, 1), (-1, -1), (1, -1), (-1, 1), (1, 1)]"

definition in_image :: "nat \<Rightarrow> nat \<Rightarrow> int \<times> int \<Rightarrow> bool" where
  "in_image W H p = (0 \<le> fst p \<and> fst p < int W \<and> 0 \<le> snd p \<and> snd p < int H)"

definition neighbours :: "connectivity \<Rightarrow> nat \<Rightarrow> nat \<Rightarrow> nat \<Rightarrow> nat list" where
  "neighbours c W H i =
     map (\<lambda>p. nat (snd p * int W + fst p))
       (filter (in_image W H)
          (map (\<lambda>d. (int (i mod W) + fst d, int (i div W) + snd d)) (offsets c)))"

text \<open>
  The dilation step: each output sample is the maximum of the marker over the pixel
  itself and its in-bounds neighbours.
\<close>

definition dilate_at :: "connectivity \<Rightarrow> nat \<Rightarrow> nat \<Rightarrow> sample list \<Rightarrow> nat \<Rightarrow> sample" where
  "dilate_at c W H M i = fold max (map (\<lambda>j. M ! j) (neighbours c W H i)) (M ! i)"

definition dilate :: "connectivity \<Rightarrow> nat \<Rightarrow> nat \<Rightarrow> sample list \<Rightarrow> sample list" where
  "dilate c W H M = map (dilate_at c W H M) [0..<W * H]"

text \<open>One iteration: \<open>M\<^sub>k\<^sub>+\<^sub>1 = min(dilate(M\<^sub>k, connectivity), I)\<close>, sample by sample.\<close>

definition recon_step ::
  "connectivity \<Rightarrow> nat \<Rightarrow> nat \<Rightarrow> sample list \<Rightarrow> sample list \<Rightarrow> sample list" where
  "recon_step c W H I M = map2 min (dilate c W H M) I"

text \<open>
  The distance of a marker from the mask, which the iteration decreases: the sum of
  \<open>I - M\<close> over the pixels once the marker lies under the mask, and more than any such
  sum before.
\<close>

definition under_mask :: "nat \<Rightarrow> sample list \<Rightarrow> sample list \<Rightarrow> bool" where
  "under_mask m I M = (length M = m \<and> (\<forall>i<m. M ! i \<le> I ! i))"

definition recon_gap :: "nat \<Rightarrow> sample list \<Rightarrow> sample list \<Rightarrow> nat" where
  "recon_gap m I M =
     (if under_mask m I M then (\<Sum>i<m. unat (I ! i) - unat (M ! i))
      else Suc (\<Sum>i<m. unat (I ! i)))"

lemma fold_max_ge: "(a :: 'a :: linorder) \<le> fold max xs a"
proof (induction xs arbitrary: a)
  case Nil
  show ?case by simp
next
  case (Cons x xs)
  have "a \<le> max x a" by simp
  also have "max x a \<le> fold max xs (max x a)" by (rule Cons.IH)
  finally show ?case by simp
qed

lemma length_recon_step: "length (recon_step c W H I M) = min (W * H) (length I)"
  by (simp add: recon_step_def dilate_def)

lemma nth_recon_step:
  assumes "i < W * H" and "i < length I"
  shows "recon_step c W H I M ! i = min (dilate_at c W H M i) (I ! i)"
  using assms by (simp add: recon_step_def dilate_def)

lemma recon_step_under_mask: "under_mask (min (W * H) (length I)) I (recon_step c W H I M)"
  by (simp add: under_mask_def length_recon_step nth_recon_step)

lemma recon_step_ge:
  assumes "under_mask (min (W * H) (length I)) I M" and "i < min (W * H) (length I)"
  shows "M ! i \<le> recon_step c W H I M ! i"
proof -
  have "M ! i \<le> dilate_at c W H M i"
    unfolding dilate_at_def by (rule fold_max_ge)
  moreover have "M ! i \<le> I ! i"
    using assms by (simp add: under_mask_def)
  ultimately show ?thesis
    using assms(2) by (simp add: nth_recon_step)
qed

lemma recon_gap_decreases:
  assumes "recon_step c W H I M \<noteq> M"
  shows "recon_gap (min (W * H) (length I)) I (recon_step c W H I M)
           < recon_gap (min (W * H) (length I)) I M"
proof -
  let ?m = "min (W * H) (length I)"
  let ?M' = "recon_step c W H I M"
  have under': "under_mask ?m I ?M'" by (rule recon_step_under_mask)
  show ?thesis
  proof (cases "under_mask ?m I M")
    case False
    have "(\<Sum>i<?m. unat (I ! i) - unat (?M' ! i)) \<le> (\<Sum>i<?m. unat (I ! i))"
      by (rule sum_mono) simp
    then show ?thesis using False under' by (simp add: recon_gap_def)
  next
    case True
    then have len: "length M = ?m" by (simp add: under_mask_def)
    have "\<exists>i<?m. ?M' ! i \<noteq> M ! i"
    proof (rule ccontr)
      assume "\<not> (\<exists>i<?m. ?M' ! i \<noteq> M ! i)"
      then have "?M' = M"
        using len by (intro nth_equalityI) (simp_all add: length_recon_step)
      with assms show False by simp
    qed
    then obtain j where j: "j < ?m" "?M' ! j \<noteq> M ! j" by blast
    have ge: "M ! i \<le> ?M' ! i" if "i < ?m" for i
      using True that by (rule recon_step_ge)
    have le: "?M' ! i \<le> I ! i" if "i < ?m" for i
      using under' that by (simp add: under_mask_def)
    have "(\<Sum>i<?m. unat (I ! i) - unat (?M' ! i)) < (\<Sum>i<?m. unat (I ! i) - unat (M ! i))"
    proof (rule sum_strict_mono_ex1)
      show "finite {..<?m}" by simp
      show "\<forall>i\<in>{..<?m}. unat (I ! i) - unat (?M' ! i) \<le> unat (I ! i) - unat (M ! i)"
        using ge by (auto simp: word_le_nat_alt intro: diff_le_mono2)
      have "M ! j < ?M' ! j" using ge [OF j(1)] j(2) by simp
      then have "unat (M ! j) < unat (?M' ! j)" by (simp add: word_less_nat_alt)
      moreover have "unat (?M' ! j) \<le> unat (I ! j)"
        using le [OF j(1)] by (simp add: word_le_nat_alt)
      ultimately have "unat (I ! j) - unat (?M' ! j) < unat (I ! j) - unat (M ! j)"
        by arith
      then show "\<exists>i\<in>{..<?m}. unat (I ! i) - unat (?M' ! i) < unat (I ! i) - unat (M ! i)"
        using j(1) by blast
    qed
    then show ?thesis using True under' by (simp add: recon_gap_def)
  qed
qed

text \<open>
  The reconstruction by dilation: repeat the step until the marker no longer changes.
  The loop returns the fixed point and the number of steps that changed the marker.
\<close>

function recon_loop ::
  "connectivity \<Rightarrow> nat \<Rightarrow> nat \<Rightarrow> sample list \<Rightarrow> sample list \<Rightarrow> nat \<Rightarrow> sample list \<times> nat" where
  "recon_loop c W H I M k =
     (let M' = recon_step c W H I M in
      if M' = M then (M, k) else recon_loop c W H I M' (Suc k))"
  by pat_completeness auto
termination
  by (relation "measure (\<lambda>(c, W, H, I, M, k). recon_gap (min (W * H) (length I)) I M)")
     (simp_all add: recon_gap_decreases)

declare recon_loop.simps [simp del]

text \<open>
  Modelled from the spec: the h-dome transform of section 4.3. The marker is seeded
  with \<open>I - h\<close>, the subtraction saturating at the sample range \<open>[0, 255]\<close>; it is grown
  under the mask to the fixed point; the result is \<open>I - M\<close>, clamped at 0. The transform
  fails on an input that is not 8 bits deep or has a zero width or height. (Sections 2
  and 3 also speak of a threshold of the difference against \<open>h\<close>; the procedure of
  section 4.3, to which the properties of section 8 refer as \<open>D = I - M\<close>, outputs the
  difference itself, and it is the one modelled. The height is any integer: the spec
  asks for no special case, the clamping at the sample range defines the result.)
\<close>

definition clamp_sample :: "int \<Rightarrow> sample" where
  "clamp_sample v = word_of_int (max 0 (min 255 v))"

definition seed :: "sample list \<Rightarrow> int \<Rightarrow> sample list" where
  "seed I h = map (\<lambda>s. clamp_sample (uint s - h)) I"

definition sub_clamped :: "sample \<Rightarrow> sample \<Rightarrow> sample" where
  "sub_clamped a b = (if b \<le> a then a - b else 0)"

definition reconstruct :: "connectivity \<Rightarrow> image_buffer \<Rightarrow> int \<Rightarrow> sample list" where
  "reconstruct c B h =
     fst (recon_loop c (width B) (height B) (samples B) (seed (samples B) h) 0)"

definition iterations :: "connectivity \<Rightarrow> image_buffer \<Rightarrow> int \<Rightarrow> nat" where
  "iterations c B h =
     snd (recon_loop c (width B) (height B) (samples B) (seed (samples B) h) 0)"

definition hdome :: "connectivity \<Rightarrow> image_buffer \<Rightarrow> int \<Rightarrow> image_buffer option" where
  "hdome c B h =
     (if bitDepth B \<noteq> 8 \<or> width B = 0 \<or> height B = 0 then None
      else Some (B\<lparr>samples := map2 sub_clamped (samples B) (reconstruct c B h)\<rparr>))"

text \<open>The positions of the non-zero samples of a buffer.\<close>

definition nonzero_positions :: "image_buffer \<Rightarrow> nat set" where
  "nonzero_positions B =
     set (filter (\<lambda>i. samples B ! i \<noteq> 0) [0..<length (samples B)])"

subsection \<open>A library made of the modelled operations\<close>

text \<open>
  Modelled from the spec: the codec adapter of section 4.1 (the library's \<^verbatim>\<open>pixRead\<close>
  and \<^verbatim>\<open>pixWrite\<close> are missing), with the file format left out: a file system is a
  list of paths with the buffer each file decodes to; \<open>decode\<close> looks the path up and
  \<open>encode\<close> replaces the file at the path. \<open>reference_library\<close> puts the modelled
  operations behind the interface the driver calls; the height arrives as a 32-bit
  signed integer and the connectivity as the integer 4 or 8.
\<close>

type_synonym file_system = "(string \<times> image_buffer) list"

definition decode :: "string \<Rightarrow> file_system \<Rightarrow> image_buffer option" where
  "decode path fs = map_of fs path"

definition encode :: "string \<Rightarrow> image_buffer \<Rightarrow> format \<Rightarrow> file_system \<Rightarrow> int \<times> file_system" where
  "encode path B fmt fs = (0, (path, B) # filter (\<lambda>f. fst f \<noteq> path) fs)"

definition reference_library :: "(image_buffer, file_system) leptonica" where
  "reference_library =
     \<lparr>pixRead = decode,
      pixGetDepth = (\<lambda>B. int (bitDepth B)),
      pixInvert = (\<lambda>B. Some (invert B)),
      pixHDome = (\<lambda>B h c. if c = 4 then hdome Conn4 B (sint h)
                           else if c = 8 then hdome Conn8 B (sint h) else None),
      pixWrite = encode\<rparr>"

subsection \<open>Example inputs\<close>

text \<open>
  A file system with an 8-bit image and a 24-bit one, for the concrete runs below, and a
  library whose writer creates the output file, writes none of the samples and reports
  failure, as a writer that opens its file before encoding does when the encoding fails.
\<close>

definition gray_2x1 :: image_buffer where
  "gray_2x1 = \<lparr>width = 2, height = 1, bitDepth = 8, samples = [250, 251]\<rparr>"

definition colour_2x1 :: image_buffer where
  "colour_2x1 = \<lparr>width = 2, height = 1, bitDepth = 24, samples = [250, 251]\<rparr>"

definition disk :: file_system where
  "disk = [(''in.png'', gray_2x1), (''rgb.png'', colour_2x1)]"

definition failing_writer ::
  "string \<Rightarrow> image_buffer \<Rightarrow> format \<Rightarrow> file_system \<Rightarrow> int \<times> file_system" where
  "failing_writer path B fmt fs =
     (1, (path, B\<lparr>samples := []\<rparr>) # filter (\<lambda>f. fst f \<noteq> path) fs)"

definition failing_writer_library :: "(image_buffer, file_system) leptonica" where
  "failing_writer_library = reference_library\<lparr>pixWrite := failing_writer\<rparr>"

text \<open>
  A library whose transform rejects a negative height, to run the driver on heights at
  the ends of the 32-bit range.
\<close>

definition negative_rejecting_library :: "(image_buffer, file_system) leptonica" where
  "negative_rejecting_library =
     reference_library
       \<lparr>pixHDome := (\<lambda>B h c. if sint h < 0 then None else pixHDome reference_library B h c)\<rparr>"

text \<open>
  An image of two pixels, 5 and 4 (the inversion of \<open>gray_2x1\<close>), and a family of
  images of one row: a pixel of value 10 followed by \<open>n\<close> pixels of value 5. With
  height 3 the marker of \<open>long_row n\<close> starts as 7 followed by 2s, and each iteration
  raises one more pixel to 5: \<open>long_row_marker n k\<close> is the marker after \<open>k\<close> iterations.
\<close>

definition step_2x1 :: image_buffer where
  "step_2x1 = \<lparr>width = 2, height = 1, bitDepth = 8, samples = [5, 4]\<rparr>"

definition long_row :: "nat \<Rightarrow> image_buffer" where
  "long_row n = \<lparr>width = Suc n, height = 1, bitDepth = 8, samples = 10 # replicate n 5\<rparr>"

definition long_row_marker :: "nat \<Rightarrow> nat \<Rightarrow> sample list" where
  "long_row_marker n k = 7 # replicate k 5 @ replicate (n - k) 2"

section \<open>Properties of the driver\<close>

lemma length_four: "length xs = 4 \<longleftrightarrow> (\<exists>a b c d. xs = [a, b, c, d])"
  by (auto simp: numeral_eq_Suc length_Suc_conv)







lemma written_value_not_numeric: "\<not> numeric_start a \<Longrightarrow> written_value a = 0"
proof (cases "dropWhile isspace a")
  case Nil
  show ?thesis by (simp add: written_value_def Nil)
next
  case (Cons c cs)
  assume "\<not> numeric_start a"
  then show ?thesis
    by (cases cs)
      (auto simp: written_value_def numeric_start_def Cons isdigit_def split: if_splits)
qed

lemma atoi_not_numeric: "\<not> numeric_start a \<Longrightarrow> atoi a = 0"
  by (simp add: atoi_def strtol_def LONG_MIN_def LONG_MAX_def written_value_not_numeric)



text \<open>The height the driver gets at and beyond the ends of the 32-bit range.\<close>

lemma atoi_out_of_range:
  "sint (atoi ''2147483647'') = 2147483647 \<and>
   sint (atoi ''2147483648'') = - 2147483648 \<and>
   sint (atoi ''-2147483649'') = 2147483647 \<and>
   sint (atoi ''4294967297'') = 1 \<and>
   sint (atoi ''99999999999999999999'') = - 1"
  by code_simp

text \<open>
  Claim C1. A run exits with code 0 exactly when it is the fixed pipeline, left to
  right: four arguments; \<open>pixRead\<close> decodes the input file; the image is 8 bits deep;
  \<open>pixInvert\<close> inverts it; \<open>pixHDome\<close> transforms the inverted image with the 32-bit
  height \<open>atoi\<close> read from the third argument and connectivity 4; \<open>pixWrite\<close> encodes
  the result as PNG at the output path and returns 0. The file system the run leaves is
  the one that \<open>pixWrite\<close> returns, and the calls are made in this order. The witness
  runs the height \<^verbatim>\<open>4294967297\<close>, which the driver passes as 1.
\<close>
theorem main_success_pipeline:
  "exit_code (main lib argv fs) = 0 \<longleftrightarrow>
     (\<exists>prog filein fileout a pixs pixInverted pixd.
        argv = [prog, filein, fileout, a] \<and>
        pixRead lib filein fs = Some pixs \<and>
        pixGetDepth lib pixs = 8 \<and>
        pixInvert lib pixs = Some pixInverted \<and>
        pixHDome lib pixInverted (atoi a) 4 = Some pixd \<and>
        pixWrite lib fileout pixd IFF_PNG fs = (0, files (main lib argv fs)) \<and>
        calls (main lib argv fs) =
          [Ev_pixRead filein, Ev_pixGetDepth pixs, Ev_pixInvert pixs,
           Ev_pixHDome pixInverted (atoi a) 4, Ev_pixWrite fileout pixd IFF_PNG,
           Ev_pixDestroy pixs, Ev_pixDestroy pixInverted, Ev_pixDestroy pixd])"
  (is "?ok \<longleftrightarrow> ?pipeline")
proof
  assume ok: ?ok
  then have "length argv = 4"
    by (auto simp: main_def split: if_splits)
  then obtain prog filein fileout a where argv: "argv = [prog, filein, fileout, a]"
    by (auto simp: length_four)
  from ok show ?pipeline
    unfolding argv
    by (auto simp: main_def Let_def split: option.splits if_splits prod.splits)
next
  assume ?pipeline
  then show ?ok
    by (auto simp: main_def Let_def split: option.splits if_splits prod.splits)
qed

theorem main_success_pipeline_witness:
  "\<exists>prog filein fileout a pixs pixInverted pixd.
     [''hdomes'', ''in.png'', ''out.png'', ''4294967297''] = [prog, filein, fileout, a] \<and>
     pixRead reference_library filein disk = Some pixs \<and>
     pixGetDepth reference_library pixs = 8 \<and>
     pixInvert reference_library pixs = Some pixInverted \<and>
     pixHDome reference_library pixInverted (atoi a) 4 = Some pixd \<and>
     pixWrite reference_library fileout pixd IFF_PNG disk =
       (0, files (main reference_library
                    [''hdomes'', ''in.png'', ''out.png'', ''4294967297''] disk)) \<and>
     calls (main reference_library [''hdomes'', ''in.png'', ''out.png'', ''4294967297''] disk) =
       [Ev_pixRead filein, Ev_pixGetDepth pixs, Ev_pixInvert pixs,
        Ev_pixHDome pixInverted (atoi a) 4, Ev_pixWrite fileout pixd IFF_PNG,
        Ev_pixDestroy pixs, Ev_pixDestroy pixInverted, Ev_pixDestroy pixd]"
proof -
  have "exit_code
          (main reference_library [''hdomes'', ''in.png'', ''out.png'', ''4294967297''] disk) = 0"
    by code_simp
  then show ?thesis
    by (rule main_success_pipeline [THEN iffD1])
qed

text \<open>
  Claim C3. The exit code is 0 if and only if the argument count is right and every
  stage succeeds, the h-dome transform at the 32-bit height \<open>atoi\<close> read; otherwise it
  is 1, whichever stage fails. The witness has one run per failing stage; with a
  transform that rejects negative heights, \<^verbatim>\<open>2147483648\<close> (read as \<open>-2147483648\<close>)
  fails and \<^verbatim>\<open>-2147483649\<close> (read as 2147483647) succeeds.
\<close>
theorem exit_code_cases:
  "exit_code (main lib argv fs) =
     (if length argv = 4 \<and> stages_succeed lib (argv ! 1) (argv ! 2) (atoi (argv ! 3)) fs
      then 0 else 1)"
  by (simp add: main_def stages_succeed_def Let_def split: option.splits prod.splits)

theorem exit_code_cases_witness:
  "exit_code (main reference_library [''hdomes'', ''in.png'', ''out.png'', ''1''] disk) = 0 \<and>
   exit_code (main reference_library [''hdomes'', ''in.png'', ''out.png''] disk) = 1 \<and>
   exit_code (main reference_library [''hdomes'', ''none.png'', ''out.png'', ''1''] disk) = 1 \<and>
   exit_code (main reference_library [''hdomes'', ''rgb.png'', ''out.png'', ''1''] disk) = 1 \<and>
   exit_code (main negative_rejecting_library
                [''hdomes'', ''in.png'', ''out.png'', ''2147483648''] disk) = 1 \<and>
   exit_code (main negative_rejecting_library
                [''hdomes'', ''in.png'', ''out.png'', ''-2147483649''] disk) = 0 \<and>
   exit_code (main failing_writer_library [''hdomes'', ''in.png'', ''out.png'', ''1''] disk) = 1"
proof -
  have "stages_succeed reference_library ''in.png'' ''out.png'' (atoi ''1'') disk"
    and "\<not> stages_succeed reference_library ''none.png'' ''out.png'' (atoi ''1'') disk"
    and "\<not> stages_succeed reference_library ''rgb.png'' ''out.png'' (atoi ''1'') disk"
    and "\<not> stages_succeed negative_rejecting_library ''in.png'' ''out.png''
             (atoi ''2147483648'') disk"
    and "stages_succeed negative_rejecting_library ''in.png'' ''out.png''
           (atoi ''-2147483649'') disk"
    and "\<not> stages_succeed failing_writer_library ''in.png'' ''out.png'' (atoi ''1'') disk"
    by code_simp+
  then show ?thesis
    by (simp add: exit_code_cases)
qed

text \<open>
  Claim C6 fails for a third argument that is not a number: the run below, with
  \<open>abc\<close> for the height, exits with code 0 and writes the output file.
\<close>
theorem unparsable_height_counterexample:
  "exit_code (main reference_library [''hdomes'', ''in.png'', ''out.png'', ''abc''] disk) = 0 \<and>
   files (main reference_library [''hdomes'', ''in.png'', ''out.png'', ''abc''] disk) \<noteq> disk \<and>
   \<not> numeric_start ''abc''"
  by code_simp

text \<open>
  Claim C6, amended. With a wrong argument count the driver reports its usage message
  and exits with code 1, having called nothing of the library and left the file system
  as it was. With four arguments it never reports the usage message, whatever the third
  argument is: the height is \<open>atoi\<close> of it, which is 0 when the argument does not start
  with a number, and whenever the read, the depth check, the inversion, the transform at
  that height and the write succeed, the run is the whole pipeline, leaves the file
  system that \<open>pixWrite\<close> returns and exits with code 0.
\<close>
theorem wrong_argument_count:
  "(length argv \<noteq> 4 \<longrightarrow>
      main lib argv fs =
        \<lparr>exit_code = 1, files = fs,
         calls = [Ev_L_ERROR ''Syntax: hdomes filein fileout h'']\<rparr>) \<and>
   (length argv = 4 \<longrightarrow>
      Ev_L_ERROR ''Syntax: hdomes filein fileout h'' \<notin> set (calls (main lib argv fs))) \<and>
   (\<not> numeric_start a \<longrightarrow> atoi a = 0) \<and>
   (pixRead lib filein fs = Some pixs \<and>
    pixGetDepth lib pixs = 8 \<and>
    pixInvert lib pixs = Some pixInverted \<and>
    pixHDome lib pixInverted (atoi a) 4 = Some pixd \<and>
    pixWrite lib fileout pixd IFF_PNG fs = (0, fs') \<longrightarrow>
      main lib [prog, filein, fileout, a] fs =
        \<lparr>exit_code = 0, files = fs',
         calls = [Ev_pixRead filein, Ev_pixGetDepth pixs, Ev_pixInvert pixs,
                  Ev_pixHDome pixInverted (atoi a) 4, Ev_pixWrite fileout pixd IFF_PNG,
                  Ev_pixDestroy pixs, Ev_pixDestroy pixInverted, Ev_pixDestroy pixd]\<rparr>)"
proof (intro conjI impI)
  assume "length argv \<noteq> 4"
  then show "main lib argv fs =
        \<lparr>exit_code = 1, files = fs,
         calls = [Ev_L_ERROR ''Syntax: hdomes filein fileout h'']\<rparr>"
    by (simp add: main_def)
next
  assume "length argv = 4"
  then show "Ev_L_ERROR ''Syntax: hdomes filein fileout h'' \<notin> set (calls (main lib argv fs))"
    by (auto simp: main_def Let_def split: option.splits prod.splits)
next
  assume "\<not> numeric_start a"
  then show "atoi a = 0" by (rule atoi_not_numeric)
next
  assume "pixRead lib filein fs = Some pixs \<and>
    pixGetDepth lib pixs = 8 \<and>
    pixInvert lib pixs = Some pixInverted \<and>
    pixHDome lib pixInverted (atoi a) 4 = Some pixd \<and>
    pixWrite lib fileout pixd IFF_PNG fs = (0, fs')"
  then show "main lib [prog, filein, fileout, a] fs =
        \<lparr>exit_code = 0, files = fs',
         calls = [Ev_pixRead filein, Ev_pixGetDepth pixs, Ev_pixInvert pixs,
                  Ev_pixHDome pixInverted (atoi a) 4, Ev_pixWrite fileout pixd IFF_PNG,
                  Ev_pixDestroy pixs, Ev_pixDestroy pixInverted, Ev_pixDestroy pixd]\<rparr>"
    by (simp add: main_def)
qed

theorem wrong_argument_count_witness:
  "main reference_library [''hdomes'', ''in.png'', ''out.png''] disk =
     \<lparr>exit_code = 1, files = disk,
      calls = [Ev_L_ERROR ''Syntax: hdomes filein fileout h'']\<rparr> \<and>
   Ev_L_ERROR ''Syntax: hdomes filein fileout h''
     \<notin> set (calls (main reference_library [''hdomes'', ''in.png'', ''out.png'', ''abc''] disk)) \<and>
   atoi ''abc'' = 0 \<and>
   main reference_library [''hdomes'', ''in.png'', ''out.png'', ''abc''] disk =
     \<lparr>exit_code = 0,
      files = (''out.png'', \<lparr>width = 2, height = 1, bitDepth = 8, samples = [0, 0]\<rparr>) # disk,
      calls = [Ev_pixRead ''in.png'', Ev_pixGetDepth gray_2x1, Ev_pixInvert gray_2x1,
               Ev_pixHDome step_2x1 (atoi ''abc'') 4,
               Ev_pixWrite ''out.png''
                 \<lparr>width = 2, height = 1, bitDepth = 8, samples = [0, 0]\<rparr> IFF_PNG,
               Ev_pixDestroy gray_2x1, Ev_pixDestroy step_2x1,
               Ev_pixDestroy \<lparr>width = 2, height = 1, bitDepth = 8, samples = [0, 0]\<rparr>]\<rparr>"
proof -
  have "\<not> numeric_start ''abc''"
    and "pixRead reference_library ''in.png'' disk = Some gray_2x1"
    and "pixGetDepth reference_library gray_2x1 = 8"
    and "pixInvert reference_library gray_2x1 = Some step_2x1"
    and "pixHDome reference_library step_2x1 (atoi ''abc'') 4 =
           Some \<lparr>width = 2, height = 1, bitDepth = 8, samples = [0, 0]\<rparr>"
    and "pixWrite reference_library ''out.png''
           \<lparr>width = 2, height = 1, bitDepth = 8, samples = [0, 0]\<rparr> IFF_PNG disk =
           (0, (''out.png'', \<lparr>width = 2, height = 1, bitDepth = 8, samples = [0, 0]\<rparr>) # disk)"
    by code_simp+
  then show ?thesis
    using
      wrong_argument_count
        [of "[''hdomes'', ''in.png'', ''out.png'']" reference_library disk "''abc''"
            "''in.png''" gray_2x1 step_2x1
            "\<lparr>width = 2, height = 1, bitDepth = 8, samples = [0, 0]\<rparr>" "''out.png''"
            "(''out.png'', \<lparr>width = 2, height = 1, bitDepth = 8, samples = [0, 0]\<rparr>) # disk"
            "''hdomes''"]
      wrong_argument_count
        [of "[''hdomes'', ''in.png'', ''out.png'', ''abc'']" reference_library disk]
    by simp
qed

text \<open>
  Claim C9 fails when the write itself fails: with a writer that creates its file and
  then reports failure, the run exits with code 1 and the output file, absent before,
  is there afterwards. The driver removes nothing.
\<close>
theorem failed_write_counterexample:
  "exit_code (main failing_writer_library [''hdomes'', ''in.png'', ''out.png'', ''1''] disk) = 1 \<and>
   decode ''out.png'' disk = None \<and>
   decode ''out.png''
     (files (main failing_writer_library [''hdomes'', ''in.png'', ''out.png'', ''1''] disk)) =
     Some \<lparr>width = 2, height = 1, bitDepth = 8, samples = []\<rparr>"
  by code_simp

text \<open>
  Claim C9, amended. A run that does not pass every stage before the write (argument
  count, read, depth check, inversion, transform) exits with code 1, makes no call of
  \<open>pixWrite\<close> and leaves the file system as it was. An input whose depth is not 8 is
  reported and the run exits with code 1 after \<open>pixRead\<close> and \<open>pixGetDepth\<close> alone. A
  run whose \<open>pixWrite\<close> reports failure reports it, exits with code 1 and leaves the
  file system as the failed \<open>pixWrite\<close> left it. A call of \<open>pixWrite\<close> is made only
  after the read, the depth check, the inversion and the h-dome transform have succeeded,
  on the transform's result.
\<close>
theorem failing_run_output:
  "(\<not> (\<exists>pixs pixInverted pixd.
         length argv = 4 \<and>
         pixRead lib (argv ! 1) fs = Some pixs \<and>
         pixGetDepth lib pixs = 8 \<and>
         pixInvert lib pixs = Some pixInverted \<and>
         pixHDome lib pixInverted (atoi (argv ! 3)) 4 = Some pixd) \<longrightarrow>
      exit_code (main lib argv fs) = 1 \<and>
      files (main lib argv fs) = fs \<and>
      (\<forall>p d f. Ev_pixWrite p d f \<notin> set (calls (main lib argv fs)))) \<and>
   (pixRead lib filein fs = Some pixs \<and> pixGetDepth lib pixs \<noteq> 8 \<longrightarrow>
      main lib [prog, filein, fileout, a] fs =
        \<lparr>exit_code = 1, files = fs,
         calls = [Ev_pixRead filein, Ev_pixGetDepth pixs,
                  Ev_L_ERROR ''Input image is not 8 bpp grayscale'', Ev_pixDestroy pixs]\<rparr>) \<and>
   (pixRead lib filein fs = Some pixs \<and>
    pixGetDepth lib pixs = 8 \<and>
    pixInvert lib pixs = Some pixInverted \<and>
    pixHDome lib pixInverted (atoi a) 4 = Some pixd \<and>
    pixWrite lib fileout pixd IFF_PNG fs = (rc, fs') \<and> rc \<noteq> 0 \<longrightarrow>
      main lib [prog, filein, fileout, a] fs =
        \<lparr>exit_code = 1, files = fs',
         calls = [Ev_pixRead filein, Ev_pixGetDepth pixs, Ev_pixInvert pixs,
                  Ev_pixHDome pixInverted (atoi a) 4, Ev_pixWrite fileout pixd IFF_PNG,
                  Ev_L_ERROR ''pixWrite failed for output file'',
                  Ev_pixDestroy pixs, Ev_pixDestroy pixInverted, Ev_pixDestroy pixd]\<rparr>) \<and>
   (Ev_pixWrite p d f \<in> set (calls (main lib argv fs)) \<longrightarrow>
      (\<exists>pixs pixInverted.
         length argv = 4 \<and> p = argv ! 2 \<and> f = IFF_PNG \<and>
         pixRead lib (argv ! 1) fs = Some pixs \<and>
         pixGetDepth lib pixs = 8 \<and>
         pixInvert lib pixs = Some pixInverted \<and>
         pixHDome lib pixInverted (atoi (argv ! 3)) 4 = Some d))"
proof (intro conjI impI)
  assume "\<not> (\<exists>pixs pixInverted pixd.
         length argv = 4 \<and>
         pixRead lib (argv ! 1) fs = Some pixs \<and>
         pixGetDepth lib pixs = 8 \<and>
         pixInvert lib pixs = Some pixInverted \<and>
         pixHDome lib pixInverted (atoi (argv ! 3)) 4 = Some pixd)"
  then show "exit_code (main lib argv fs) = 1"
    and "files (main lib argv fs) = fs"
    and "\<forall>p d f. Ev_pixWrite p d f \<notin> set (calls (main lib argv fs))"
    by (auto simp: main_def Let_def split: option.splits prod.splits if_splits)
next
  assume "pixRead lib filein fs = Some pixs \<and> pixGetDepth lib pixs \<noteq> 8"
  then show "main lib [prog, filein, fileout, a] fs =
        \<lparr>exit_code = 1, files = fs,
         calls = [Ev_pixRead filein, Ev_pixGetDepth pixs,
                  Ev_L_ERROR ''Input image is not 8 bpp grayscale'', Ev_pixDestroy pixs]\<rparr>"
    by (simp add: main_def)
next
  assume "pixRead lib filein fs = Some pixs \<and>
    pixGetDepth lib pixs = 8 \<and>
    pixInvert lib pixs = Some pixInverted \<and>
    pixHDome lib pixInverted (atoi a) 4 = Some pixd \<and>
    pixWrite lib fileout pixd IFF_PNG fs = (rc, fs') \<and> rc \<noteq> 0"
  then show "main lib [prog, filein, fileout, a] fs =
        \<lparr>exit_code = 1, files = fs',
         calls = [Ev_pixRead filein, Ev_pixGetDepth pixs, Ev_pixInvert pixs,
                  Ev_pixHDome pixInverted (atoi a) 4, Ev_pixWrite fileout pixd IFF_PNG,
                  Ev_L_ERROR ''pixWrite failed for output file'',
                  Ev_pixDestroy pixs, Ev_pixDestroy pixInverted, Ev_pixDestroy pixd]\<rparr>"
    by (simp add: main_def)
next
  assume "Ev_pixWrite p d f \<in> set (calls (main lib argv fs))"
  then show "\<exists>pixs pixInverted.
         length argv = 4 \<and> p = argv ! 2 \<and> f = IFF_PNG \<and>
         pixRead lib (argv ! 1) fs = Some pixs \<and>
         pixGetDepth lib pixs = 8 \<and>
         pixInvert lib pixs = Some pixInverted \<and>
         pixHDome lib pixInverted (atoi (argv ! 3)) 4 = Some d"
    by (auto simp: main_def Let_def split: option.splits prod.splits if_splits)
qed

theorem failing_run_output_witness:
  "main reference_library [''hdomes'', ''rgb.png'', ''out.png'', ''1''] disk =
     \<lparr>exit_code = 1, files = disk,
      calls = [Ev_pixRead ''rgb.png'', Ev_pixGetDepth colour_2x1,
               Ev_L_ERROR ''Input image is not 8 bpp grayscale'',
               Ev_pixDestroy colour_2x1]\<rparr> \<and>
   main failing_writer_library [''hdomes'', ''in.png'', ''out.png'', ''1''] disk =
     \<lparr>exit_code = 1,
      files = (''out.png'', \<lparr>width = 2, height = 1, bitDepth = 8, samples = []\<rparr>) # disk,
      calls = [Ev_pixRead ''in.png'', Ev_pixGetDepth gray_2x1, Ev_pixInvert gray_2x1,
               Ev_pixHDome step_2x1 (atoi ''1'') 4,
               Ev_pixWrite ''out.png''
                 \<lparr>width = 2, height = 1, bitDepth = 8, samples = [1, 0]\<rparr> IFF_PNG,
               Ev_L_ERROR ''pixWrite failed for output file'',
               Ev_pixDestroy gray_2x1, Ev_pixDestroy step_2x1,
               Ev_pixDestroy \<lparr>width = 2, height = 1, bitDepth = 8, samples = [1, 0]\<rparr>]\<rparr> \<and>
   exit_code (main negative_rejecting_library
                [''hdomes'', ''in.png'', ''out.png'', ''2147483648''] disk) = 1 \<and>
   files (main negative_rejecting_library
            [''hdomes'', ''in.png'', ''out.png'', ''2147483648''] disk) = disk"
proof -
  have read_rgb: "pixRead reference_library ''rgb.png'' disk = Some colour_2x1"
    and depth_rgb: "pixGetDepth reference_library colour_2x1 \<noteq> 8"
    by code_simp+
  have failed_write:
    "pixRead failing_writer_library ''in.png'' disk = Some gray_2x1 \<and>
     pixGetDepth failing_writer_library gray_2x1 = 8 \<and>
     pixInvert failing_writer_library gray_2x1 = Some step_2x1 \<and>
     pixHDome failing_writer_library step_2x1 (atoi ''1'') 4 =
       Some \<lparr>width = 2, height = 1, bitDepth = 8, samples = [1, 0]\<rparr> \<and>
     pixWrite failing_writer_library ''out.png''
       \<lparr>width = 2, height = 1, bitDepth = 8, samples = [1, 0]\<rparr> IFF_PNG disk =
       (1, (''out.png'', \<lparr>width = 2, height = 1, bitDepth = 8, samples = []\<rparr>) # disk) \<and>
     (1::int) \<noteq> 0"
    by code_simp
  have "pixRead negative_rejecting_library ''in.png'' disk = Some gray_2x1"
    and "pixInvert negative_rejecting_library gray_2x1 = Some step_2x1"
    and "pixHDome negative_rejecting_library step_2x1 (atoi ''2147483648'') 4 = None"
    by code_simp+
  then have rejected:
    "\<not> (\<exists>pixs pixInverted pixd.
           length [''hdomes'', ''in.png'', ''out.png'', ''2147483648''] = 4 \<and>
           pixRead negative_rejecting_library
             ([''hdomes'', ''in.png'', ''out.png'', ''2147483648''] ! 1) disk = Some pixs \<and>
           pixGetDepth negative_rejecting_library pixs = 8 \<and>
           pixInvert negative_rejecting_library pixs = Some pixInverted \<and>
           pixHDome negative_rejecting_library pixInverted
             (atoi ([''hdomes'', ''in.png'', ''out.png'', ''2147483648''] ! 3)) 4 = Some pixd)"
    by auto
  show ?thesis
    using
      failing_run_output
        [where argv = "[''hdomes'', ''in.png'', ''out.png'', ''2147483648'']"
           and lib = negative_rejecting_library and fs = disk,
         THEN conjunct1, THEN mp, OF rejected]
      failing_run_output
        [where lib = reference_library and fs = disk and filein = "''rgb.png''"
           and pixs = colour_2x1 and prog = "''hdomes''" and fileout = "''out.png''"
           and a = "''1''",
         THEN conjunct2, THEN conjunct1, THEN mp, OF conjI, OF read_rgb depth_rgb]
      failing_run_output
        [where lib = failing_writer_library and fs = disk and filein = "''in.png''"
           and pixs = gray_2x1 and prog = "''hdomes''" and fileout = "''out.png''"
           and a = "''1''" and pixInverted = step_2x1
           and pixd = "\<lparr>width = 2, height = 1, bitDepth = 8, samples = [1, 0]\<rparr>"
           and rc = 1
           and fs' = "(''out.png'', \<lparr>width = 2, height = 1, bitDepth = 8, samples = []\<rparr>) # disk",
         THEN conjunct2, THEN conjunct2, THEN conjunct1, THEN mp, OF failed_write]
    by simp
qed



section \<open>Properties of the modelled operations\<close>

subsection \<open>Samples\<close>

lemma uint_clamp_sample: "uint (clamp_sample v) = max 0 (min 255 v)"
proof -
  have "0 \<le> max 0 (min 255 v)" and "max 0 (min 255 v) < 256" by auto
  then show ?thesis
    by (simp add: clamp_sample_def uint_word_of_int)
qed

lemma clamp_sample_mono: "a \<le> b \<Longrightarrow> clamp_sample a \<le> clamp_sample b"
  by (auto simp: word_le_def uint_clamp_sample)

lemma uint_sample_le: "uint (s :: sample) \<le> 255"
  using uint_lt2p [of s] by simp

lemma clamp_sample_uint: "clamp_sample (uint s) = s"
proof -
  have "uint (clamp_sample (uint s)) = uint s"
    using uint_sample_le [of s] by (simp add: uint_clamp_sample)
  then show ?thesis by (simp only: word_uint_eq_iff)
qed

lemma unat_sample_le: "unat (s :: sample) \<le> 255"
  using unsigned_less [of s, where ?'a = nat] by simp

lemma sample_le_255: "(s :: sample) \<le> 255"
  by (simp add: word_le_nat_alt unat_sample_le)

lemma unat_invert_sample: "unat (255 - s :: sample) = 255 - unat s"
  using sample_le_255 [of s] by (simp add: unat_sub)

text \<open>
  Claim C7. Inversion keeps the dimensions and the depth, replaces each sample \<open>s\<close> by
  \<open>255 - s\<close> (as numbers: there is no wrap-around), and applied twice gives the buffer
  back.
\<close>
theorem invert_involutive:
  "width (invert B) = width B \<and> height (invert B) = height B \<and>
   bitDepth (invert B) = bitDepth B \<and>
   length (samples (invert B)) = length (samples B) \<and>
   (\<forall>i<length (samples B). unat (samples (invert B) ! i) = 255 - unat (samples B ! i)) \<and>
   invert (invert B) = B"
  by (simp add: invert_def unat_invert_sample comp_def)

theorem invert_involutive_witness:
  "unat (samples (invert gray_2x1) ! 1) = 255 - unat (samples gray_2x1 ! 1) \<and>
   invert (invert gray_2x1) = gray_2x1"
  using invert_involutive [of gray_2x1] by (simp add: gray_2x1_def)

subsection \<open>The reconstruction loop\<close>

lemma dilate_at_ge: "M ! i \<le> dilate_at c W H M i"
  unfolding dilate_at_def by (rule fold_max_ge)

lemma recon_step_above_mask:
  assumes "length I = W * H" and "\<forall>i<W * H. I ! i \<le> M ! i"
  shows "recon_step c W H I M = I"
proof (rule nth_equalityI)
  show "length (recon_step c W H I M) = length I"
    using assms(1) by (simp add: length_recon_step)
next
  fix i assume "i < length (recon_step c W H I M)"
  then have i: "i < W * H" "i < length I"
    using assms(1) by (simp_all add: length_recon_step)
  have "I ! i \<le> M ! i" using assms(2) i(1) by simp
  also have "M ! i \<le> dilate_at c W H M i" by (rule dilate_at_ge)
  finally show "recon_step c W H I M ! i = I ! i"
    using i by (simp add: nth_recon_step min_absorb2)
qed

lemma recon_loop_fixed:
  "recon_step c W H I M = M \<Longrightarrow> recon_loop c W H I M k = (M, k)"
  by (subst recon_loop.simps) simp

lemma recon_loop_changed:
  "recon_step c W H I M \<noteq> M \<Longrightarrow>
     recon_loop c W H I M k = recon_loop c W H I (recon_step c W H I M) (Suc k)"
  by (subst recon_loop.simps) simp

lemma seed_zero: "seed I 0 = I"
  by (simp add: seed_def clamp_sample_uint)

lemma map2_sub_clamped_same: "map2 sub_clamped I I = replicate (length I) 0"
  by (simp add: zip_same_conv_map sub_clamped_def comp_def map_replicate_const)

lemma recon_loop_funpow:
  "\<exists>j. recon_loop c W H I M k = ((recon_step c W H I ^^ j) M, k + j) \<and>
       recon_step c W H I ((recon_step c W H I ^^ j) M) = (recon_step c W H I ^^ j) M \<and>
       (\<forall>i<j. (recon_step c W H I ^^ Suc i) M \<noteq> (recon_step c W H I ^^ i) M)"
proof (induction c W H I M k rule: recon_loop.induct)
  case (1 c W H I M k)
  let ?f = "recon_step c W H I"
  show ?case
  proof (cases "?f M = M")
    case True
    then have "recon_loop c W H I M k = ((?f ^^ 0) M, k + 0) \<and>
       ?f ((?f ^^ 0) M) = (?f ^^ 0) M \<and>
       (\<forall>i<0. (?f ^^ Suc i) M \<noteq> (?f ^^ i) M)"
      by (simp add: recon_loop_fixed)
    then show ?thesis by blast
  next
    case False
    then obtain j where j:
      "recon_loop c W H I (?f M) (Suc k) = ((?f ^^ j) (?f M), Suc k + j)"
      "?f ((?f ^^ j) (?f M)) = (?f ^^ j) (?f M)"
      "\<forall>i<j. (?f ^^ Suc i) (?f M) \<noteq> (?f ^^ i) (?f M)"
      using "1.IH" [of "?f M"] by auto
    have shift: "(?f ^^ n) (?f M) = (?f ^^ Suc n) M" for n
      by (simp add: funpow_swap1)
    have "recon_loop c W H I M k = ((?f ^^ Suc j) M, k + Suc j)"
      using False j(1) by (simp add: recon_loop_changed shift)
    moreover have "?f ((?f ^^ Suc j) M) = (?f ^^ Suc j) M"
      using j(2) by (simp only: shift)
    moreover have "\<forall>i<Suc j. (?f ^^ Suc i) M \<noteq> (?f ^^ i) M"
    proof (intro allI impI)
      fix i assume "i < Suc j"
      show "(?f ^^ Suc i) M \<noteq> (?f ^^ i) M"
      proof (cases i)
        case 0
        then show ?thesis using False by simp
      next
        case (Suc i')
        then have "i' < j" using \<open>i < Suc j\<close> by simp
        then have "(?f ^^ Suc i') (?f M) \<noteq> (?f ^^ i') (?f M)" using j(3) by blast
        then show ?thesis unfolding Suc shift .
      qed
    qed
    ultimately show ?thesis by blast
  qed
qed

lemma recon_loop_bound:
  "snd (recon_loop c W H I M k) \<le> k + recon_gap (min (W * H) (length I)) I M"
proof (induction c W H I M k rule: recon_loop.induct)
  case (1 c W H I M k)
  show ?case
  proof (cases "recon_step c W H I M = M")
    case True
    then show ?thesis by (simp add: recon_loop_fixed)
  next
    case False
    have "snd (recon_loop c W H I (recon_step c W H I M) (Suc k))
            \<le> Suc k + recon_gap (min (W * H) (length I)) I (recon_step c W H I M)"
      using False by (intro "1.IH") simp_all
    also have "\<dots> \<le> k + recon_gap (min (W * H) (length I)) I M"
      using recon_gap_decreases [OF False] by simp
    finally show ?thesis using False by (simp add: recon_loop_changed)
  qed
qed

lemma iterations_funpow:
  "reconstruct c B h =
     (recon_step c (width B) (height B) (samples B) ^^ iterations c B h) (seed (samples B) h)"
  using recon_loop_funpow [of c "width B" "height B" "samples B" "seed (samples B) h" 0]
  by (auto simp: reconstruct_def iterations_def)

lemma iterations_least:
  assumes "i < iterations c B h"
  shows "recon_step c (width B) (height B) (samples B)
           ((recon_step c (width B) (height B) (samples B) ^^ i) (seed (samples B) h))
         \<noteq> (recon_step c (width B) (height B) (samples B) ^^ i) (seed (samples B) h)"
  using recon_loop_funpow [of c "width B" "height B" "samples B" "seed (samples B) h" 0] assms
  by (auto simp: iterations_def)

lemma in_image_index:
  assumes "0 \<le> x" "x < int W" "0 \<le> y" "y < int H"
  shows "nat (y * int W + x) < W * H"
proof -
  have "(y + 1) * int W \<le> int H * int W"
    using assms by (intro mult_right_mono) auto
  then have "y * int W + x < int (W * H)"
    using assms(2) by (simp add: algebra_simps)
  moreover have "0 \<le> y * int W + x"
    using assms by simp
  ultimately show ?thesis by (simp add: nat_less_iff)
qed

lemma neighbours_bound: "j \<in> set (neighbours c W H i) \<Longrightarrow> j < W * H"
  by (auto simp: neighbours_def in_image_def intro: in_image_index)

lemma fold_max_mono:
  fixes a b :: "'a :: linorder"
  assumes "\<forall>j\<in>set ns. f j \<le> g j" and "a \<le> b"
  shows "fold max (map f ns) a \<le> fold max (map g ns) b"
  using assms
proof (induction ns arbitrary: a b)
  case Nil
  then show ?case by simp
next
  case (Cons n ns)
  have "max (f n) a \<le> max (g n) b"
    using Cons.prems by (intro max.mono) simp_all
  then show ?case
    using Cons.prems by (simp add: Cons.IH)
qed

lemma dilate_at_mono:
  assumes "\<forall>j<W * H. M ! j \<le> M' ! j" and "i < W * H"
  shows "dilate_at c W H M i \<le> dilate_at c W H M' i"
  unfolding dilate_at_def
  using assms by (intro fold_max_mono) (auto dest: neighbours_bound)

lemma recon_step_mono:
  assumes "length I = W * H" and "\<forall>j<W * H. M ! j \<le> M' ! j"
  shows "\<forall>i<W * H. recon_step c W H I M ! i \<le> recon_step c W H I M' ! i"
proof (intro allI impI)
  fix i assume i: "i < W * H"
  have "min (dilate_at c W H M i) (I ! i) \<le> min (dilate_at c W H M' i) (I ! i)"
    using dilate_at_mono [OF assms(2) i] by (intro min.mono) simp_all
  then show "recon_step c W H I M ! i \<le> recon_step c W H I M' ! i"
    using i assms(1) by (simp add: nth_recon_step)
qed

lemma funpow_recon_step_mono:
  assumes "length I = W * H" and "\<forall>j<W * H. M ! j \<le> M' ! j"
  shows "\<forall>i<W * H. (recon_step c W H I ^^ k) M ! i \<le> (recon_step c W H I ^^ k) M' ! i"
proof (induction k)
  case 0
  show ?case using assms(2) by simp
next
  case (Suc k)
  show ?case
    using recon_step_mono [OF assms(1) Suc.IH] by simp
qed

lemma funpow_fixed: "f x = x \<Longrightarrow> (f ^^ n) x = x"
  by (induction n) simp_all

lemma seed_antitone:
  assumes "h1 \<le> h2" and "i < length I"
  shows "seed I h2 ! i \<le> seed I h1 ! i"
  using assms by (simp add: seed_def clamp_sample_mono)

lemma seed_under:
  assumes "0 \<le> h" and "i < length I"
  shows "seed I h ! i \<le> I ! i"
  using seed_antitone [of 0 h i I] assms by (simp add: seed_zero)

lemma seed_above:
  assumes "h \<le> 0" and "i < length I"
  shows "I ! i \<le> seed I h ! i"
  using seed_antitone [of h 0 i I] assms by (simp add: seed_zero)

lemma reconstruct_fixed:
  "recon_step c (width B) (height B) (samples B) (reconstruct c B h) = reconstruct c B h"
  using recon_loop_funpow [of c "width B" "height B" "samples B" "seed (samples B) h" 0]
  by (auto simp: reconstruct_def)

lemma reconstruct_under_mask:
  assumes "length (samples B) = width B * height B"
  shows "under_mask (width B * height B) (samples B) (reconstruct c B h)"
  using recon_step_under_mask [of "width B" "height B" "samples B" c "reconstruct c B h"] assms
  by (simp add: reconstruct_fixed)

lemma reconstruct_antitone:
  assumes len: "length (samples B) = width B * height B" and "h1 \<le> h2"
  shows "\<forall>i<width B * height B. reconstruct c B h2 ! i \<le> reconstruct c B h1 ! i"
proof -
  let ?f = "recon_step c (width B) (height B) (samples B)"
  let ?M1 = "seed (samples B) h1" and ?M2 = "seed (samples B) h2"
  obtain j1 where j1: "reconstruct c B h1 = (?f ^^ j1) ?M1" "?f ((?f ^^ j1) ?M1) = (?f ^^ j1) ?M1"
    using recon_loop_funpow [of c "width B" "height B" "samples B" ?M1 0]
    by (auto simp: reconstruct_def)
  obtain j2 where j2: "reconstruct c B h2 = (?f ^^ j2) ?M2" "?f ((?f ^^ j2) ?M2) = (?f ^^ j2) ?M2"
    using recon_loop_funpow [of c "width B" "height B" "samples B" ?M2 0]
    by (auto simp: reconstruct_def)
  have r1: "reconstruct c B h1 = (?f ^^ (j2 + j1)) ?M1"
    using funpow_fixed [of ?f "(?f ^^ j1) ?M1" j2] j1(2) by (simp add: funpow_add j1(1))
  have r2: "reconstruct c B h2 = (?f ^^ (j2 + j1)) ?M2"
    using funpow_fixed [of ?f "(?f ^^ j2) ?M2" j1] j2(2)
    by (simp add: funpow_add j2(1) add.commute [of j2 j1])
  have "\<forall>i<width B * height B. ?M2 ! i \<le> ?M1 ! i"
    using assms by (simp add: seed_antitone)
  then show ?thesis
    unfolding r1 r2 by (rule funpow_recon_step_mono [OF len])
qed

lemma sub_clamped_antitone:
  assumes "b2 \<le> b1" and "b1 \<le> a"
  shows "sub_clamped a b1 \<le> sub_clamped a b2"
proof -
  have "b2 \<le> a" using assms by simp
  then show ?thesis
    using assms by (simp add: sub_clamped_def word_le_nat_alt unat_sub)
qed

lemma hdome_Some:
  "valid_buffer B \<Longrightarrow>
     hdome c B h = Some (B\<lparr>samples := map2 sub_clamped (samples B) (reconstruct c B h)\<rparr>)"
  by (simp add: hdome_def valid_buffer_def)

lemma hdome_samples_nth:
  assumes "length (samples B) = width B * height B" and "i < width B * height B"
  shows "map2 sub_clamped (samples B) (reconstruct c B h) ! i
           = sub_clamped (samples B ! i) (reconstruct c B h ! i)"
  using assms reconstruct_under_mask [OF assms(1), of c h]
  by (simp add: under_mask_def)

text \<open>
  Claim C8. On a valid 8-bit buffer the h-dome transform with height 0 succeeds and
  returns the buffer with every sample 0: same width, height and depth, one zero per
  pixel.
\<close>
theorem hdome_zero:
  assumes "valid_buffer B"
  shows "hdome c B 0 = Some (B\<lparr>samples := replicate (width B * height B) 0\<rparr>)"
proof -
  have len: "length (samples B) = width B * height B"
    using assms by (simp add: valid_buffer_def)
  have "recon_step c (width B) (height B) (samples B) (samples B) = samples B"
    using len by (rule recon_step_above_mask) simp
  then have "reconstruct c B 0 = samples B"
    by (simp add: reconstruct_def seed_zero recon_loop_fixed)
  then show ?thesis
    using assms len by (simp add: hdome_def valid_buffer_def map2_sub_clamped_same)
qed

theorem hdome_zero_witness:
  "hdome Conn4 gray_2x1 0 = Some \<lparr>width = 2, height = 1, bitDepth = 8, samples = [0, 0]\<rparr>"
proof -
  have "valid_buffer gray_2x1" by (simp add: valid_buffer_def gray_2x1_def)
  then show ?thesis
    using hdome_zero [of gray_2x1 Conn4] by (simp add: gray_2x1_def numeral_2_eq_2)
qed

text \<open>
  Claim C4 fails: on the two pixels 5 and 4, the result is \<open>[0, 0]\<close> for height 0,
  \<open>[1, 0]\<close> for height 1 and \<open>[2, 1]\<close> for height 2. The first pixel is non-zero for
  height 1 and zero for height 0; the second is non-zero for height 2 and zero for
  height 1. Each time the non-zero positions for the larger height are not among those
  for the smaller one.
\<close>
theorem hdome_shrinks_counterexample:
  "valid_buffer step_2x1 \<and>
   hdome Conn4 step_2x1 0 = Some \<lparr>width = 2, height = 1, bitDepth = 8, samples = [0, 0]\<rparr> \<and>
   hdome Conn4 step_2x1 1 = Some \<lparr>width = 2, height = 1, bitDepth = 8, samples = [1, 0]\<rparr> \<and>
   hdome Conn4 step_2x1 2 = Some \<lparr>width = 2, height = 1, bitDepth = 8, samples = [2, 1]\<rparr> \<and>
   \<not> nonzero_positions \<lparr>width = 2, height = 1, bitDepth = 8, samples = [1, 0]\<rparr>
       \<subseteq> nonzero_positions \<lparr>width = 2, height = 1, bitDepth = 8, samples = [0, 0]\<rparr> \<and>
   \<not> nonzero_positions \<lparr>width = 2, height = 1, bitDepth = 8, samples = [2, 1]\<rparr>
       \<subseteq> nonzero_positions \<lparr>width = 2, height = 1, bitDepth = 8, samples = [1, 0]\<rparr>"
  by code_simp

text \<open>
  Claim C4, amended: the inclusion holds the other way round. On a valid 8-bit buffer
  and for heights \<open>h1 \<le> h2\<close>, both transforms succeed, the result for \<open>h1\<close> is at most
  the result for \<open>h2\<close> at every pixel, and so the non-zero positions of the result for
  \<open>h1\<close> are among those of the result for \<open>h2\<close>.
\<close>
theorem hdome_grows_with_height:
  assumes "valid_buffer B" and "h1 \<le> h2"
  shows "\<exists>D1 D2.
           hdome c B h1 = Some D1 \<and> hdome c B h2 = Some D2 \<and>
           length (samples D1) = width B * height B \<and>
           length (samples D2) = width B * height B \<and>
           (\<forall>i<width B * height B. samples D1 ! i \<le> samples D2 ! i) \<and>
           nonzero_positions D1 \<subseteq> nonzero_positions D2"
proof -
  let ?n = "width B * height B"
  let ?D1 = "B\<lparr>samples := map2 sub_clamped (samples B) (reconstruct c B h1)\<rparr>"
  let ?D2 = "B\<lparr>samples := map2 sub_clamped (samples B) (reconstruct c B h2)\<rparr>"
  have len: "length (samples B) = ?n"
    using assms(1) by (simp add: valid_buffer_def)
  have u1: "under_mask ?n (samples B) (reconstruct c B h1)"
    and u2: "under_mask ?n (samples B) (reconstruct c B h2)"
    using len by (rule reconstruct_under_mask)+
  have l1: "length (samples ?D1) = ?n" and l2: "length (samples ?D2) = ?n"
    using len u1 u2 by (simp_all add: under_mask_def)
  have le: "samples ?D1 ! i \<le> samples ?D2 ! i" if "i < ?n" for i
  proof -
    have "reconstruct c B h2 ! i \<le> reconstruct c B h1 ! i"
      using reconstruct_antitone [OF len assms(2)] that by blast
    moreover have "reconstruct c B h1 ! i \<le> samples B ! i"
      using u1 that by (simp add: under_mask_def)
    ultimately have "sub_clamped (samples B ! i) (reconstruct c B h1 ! i)
                       \<le> sub_clamped (samples B ! i) (reconstruct c B h2 ! i)"
      by (rule sub_clamped_antitone)
    then show ?thesis
      using that len by (simp add: hdome_samples_nth)
  qed
  have "nonzero_positions ?D1 \<subseteq> nonzero_positions ?D2"
  proof
    fix i assume "i \<in> nonzero_positions ?D1"
    then have i: "i < ?n" and nz: "samples ?D1 ! i \<noteq> 0"
      using l1 by (auto simp: nonzero_positions_def)
    have "samples ?D2 ! i \<noteq> 0"
    proof
      assume "samples ?D2 ! i = 0"
      with le [OF i] have "samples ?D1 ! i = 0" by simp
      with nz show False by simp
    qed
    then show "i \<in> nonzero_positions ?D2"
      using i l2 by (auto simp: nonzero_positions_def)
  qed
  then show ?thesis
    using assms(1) l1 l2 le by (auto simp: hdome_Some)
qed

theorem hdome_grows_with_height_witness:
  "nonzero_positions \<lparr>width = 2, height = 1, bitDepth = 8, samples = [1, 0]\<rparr>
     \<subseteq> nonzero_positions \<lparr>width = 2, height = 1, bitDepth = 8, samples = [2, 1]\<rparr>"
proof -
  have "valid_buffer step_2x1"
    by (simp add: valid_buffer_def step_2x1_def)
  moreover have
    "hdome Conn4 step_2x1 1 = Some \<lparr>width = 2, height = 1, bitDepth = 8, samples = [1, 0]\<rparr>"
    "hdome Conn4 step_2x1 2 = Some \<lparr>width = 2, height = 1, bitDepth = 8, samples = [2, 1]\<rparr>"
    by code_simp+
  ultimately show ?thesis
    using hdome_grows_with_height [of step_2x1 1 2 Conn4] by auto
qed

subsection \<open>The number of iterations\<close>

lemma length_long_row_marker: "k \<le> n \<Longrightarrow> length (long_row_marker n k) = Suc n"
  by (simp add: long_row_marker_def)

lemma nth_long_row_marker:
  "k \<le> n \<Longrightarrow> i \<le> n \<Longrightarrow>
     long_row_marker n k ! i = (if i = 0 then 7 else if i \<le> k then 5 else 2)"
  by (auto simp: long_row_marker_def nth_Cons' nth_append)

lemma nth_long_row_mask:
  "i \<le> n \<Longrightarrow> (10 # replicate n 5 :: sample list) ! i = (if i = 0 then 10 else 5)"
  by (auto simp: nth_Cons')

lemma neighbours_long_row:
  "i \<le> n \<Longrightarrow>
     neighbours Conn4 (Suc n) (Suc 0) i =
       (if 0 < i then [i - 1] else []) @ (if i < n then [Suc i] else [])"
  by (auto simp: neighbours_def in_image_def nat_diff_distrib' nat_add_distrib)

lemma seed_long_row: "seed (10 # replicate n 5) 3 = long_row_marker n 0"
  by (simp add: seed_def clamp_sample_def long_row_marker_def)

lemma recon_step_long_row:
  assumes "k \<le> n"
  shows "recon_step Conn4 (Suc n) (Suc 0) (10 # replicate n 5) (long_row_marker n k)
           = long_row_marker n (min n (Suc k))"
proof (rule nth_equalityI)
  show "length (recon_step Conn4 (Suc n) (Suc 0) (10 # replicate n 5) (long_row_marker n k))
          = length (long_row_marker n (min n (Suc k)))"
    by (simp add: length_recon_step length_long_row_marker)
next
  fix i
  assume "i < length (recon_step Conn4 (Suc n) (Suc 0) (10 # replicate n 5) (long_row_marker n k))"
  then have i: "i \<le> n" by (simp add: length_recon_step)
  then have "recon_step Conn4 (Suc n) (Suc 0) (10 # replicate n 5) (long_row_marker n k) ! i
               = min (dilate_at Conn4 (Suc n) (Suc 0) (long_row_marker n k) i)
                     ((10 # replicate n 5) ! i)"
    by (intro nth_recon_step) simp_all
  also have "\<dots> = long_row_marker n (min n (Suc k)) ! i"
    using i assms
    by (simp add: dilate_at_def neighbours_long_row nth_long_row_marker nth_long_row_mask
          del: replicate.simps) arith
  finally show "recon_step Conn4 (Suc n) (Suc 0) (10 # replicate n 5) (long_row_marker n k) ! i
                  = long_row_marker n (min n (Suc k)) ! i" .
qed

lemma long_row_marker_changes: "k < n \<Longrightarrow> long_row_marker n (Suc k) \<noteq> long_row_marker n k"
proof
  assume "k < n" and "long_row_marker n (Suc k) = long_row_marker n k"
  then have "long_row_marker n (Suc k) ! Suc k = long_row_marker n k ! Suc k" by simp
  with \<open>k < n\<close> show False by (simp add: nth_long_row_marker)
qed

lemma recon_loop_long_row:
  "k \<le> n \<Longrightarrow>
     recon_loop Conn4 (Suc n) (Suc 0) (10 # replicate n 5) (long_row_marker n k) j
       = (long_row_marker n n, j + (n - k))"
proof (induction "n - k" arbitrary: k j)
  case 0
  then have "k = n" by simp
  then show ?case
    using recon_step_long_row [of n n] by (simp add: recon_loop_fixed)
next
  case (Suc d)
  then have k: "k < n" and d: "d = n - Suc k" by simp_all
  have step: "recon_step Conn4 (Suc n) (Suc 0) (10 # replicate n 5) (long_row_marker n k)
                = long_row_marker n (Suc k)"
    using k recon_step_long_row [of k n] by (simp add: min_absorb2)
  have "recon_loop Conn4 (Suc n) (Suc 0) (10 # replicate n 5) (long_row_marker n k) j
          = recon_loop Conn4 (Suc n) (Suc 0) (10 # replicate n 5) (long_row_marker n (Suc k)) (Suc j)"
    using long_row_marker_changes [OF k] by (simp add: recon_loop_changed step)
  also have "\<dots> = (long_row_marker n n, Suc j + (n - Suc k))"
    using k by (intro Suc.hyps(1) d) simp
  finally show ?case using k by simp
qed

lemma iterations_long_row: "iterations Conn4 (long_row n) 3 = n"
  by (simp add: iterations_def long_row_def seed_long_row recon_loop_long_row
        del: replicate.simps)

text \<open>
  Claim C5 fails: on the image of one row and 257 pixels, 10 followed by 256 times 5,
  with height 3, the marker after 255 iterations is not a fixed point; the fixed point
  is reached after 256 iterations.
\<close>
theorem long_row_counterexample:
  "valid_buffer (long_row 256) \<and>
   iterations Conn4 (long_row 256) 3 = 256 \<and>
   recon_step Conn4 (width (long_row 256)) (height (long_row 256)) (samples (long_row 256))
     ((recon_step Conn4 (width (long_row 256)) (height (long_row 256)) (samples (long_row 256))
         ^^ 255) (seed (samples (long_row 256)) 3))
   \<noteq> (recon_step Conn4 (width (long_row 256)) (height (long_row 256)) (samples (long_row 256))
         ^^ 255) (seed (samples (long_row 256)) 3)"
proof (intro conjI)
  show "valid_buffer (long_row 256)"
    by (simp add: valid_buffer_def long_row_def)
  show n: "iterations Conn4 (long_row 256) 3 = 256"
    by (rule iterations_long_row)
  have "(255::nat) < iterations Conn4 (long_row 256) 3"
    by (simp add: n)
  then show "recon_step Conn4 (width (long_row 256)) (height (long_row 256))
       (samples (long_row 256))
       ((recon_step Conn4 (width (long_row 256)) (height (long_row 256))
           (samples (long_row 256)) ^^ 255) (seed (samples (long_row 256)) 3))
     \<noteq> (recon_step Conn4 (width (long_row 256)) (height (long_row 256))
           (samples (long_row 256)) ^^ 255) (seed (samples (long_row 256)) 3)"
    by (rule iterations_least)
qed

text \<open>
  Claim C5, amended: the bound grows with the image. On a valid 8-bit buffer the
  iteration reaches its fixed point within at most \<open>255 * width * height\<close> iterations:
  the marker after \<open>iterations c B h\<close> steps is the one the loop returns and is a fixed
  point of the step, no marker before it is one, and that number of steps is at most
  \<open>255 * (width B * height B)\<close>.
\<close>
theorem iterations_bound:
  assumes "valid_buffer B"
  shows "iterations c B h \<le> 255 * (width B * height B) \<and>
         reconstruct c B h =
           (recon_step c (width B) (height B) (samples B) ^^ iterations c B h)
             (seed (samples B) h) \<and>
         recon_step c (width B) (height B) (samples B) (reconstruct c B h)
           = reconstruct c B h \<and>
         (\<forall>k<iterations c B h.
            recon_step c (width B) (height B) (samples B)
              ((recon_step c (width B) (height B) (samples B) ^^ k) (seed (samples B) h))
            \<noteq> (recon_step c (width B) (height B) (samples B) ^^ k) (seed (samples B) h))"
proof (intro conjI allI impI)
  show "reconstruct c B h =
          (recon_step c (width B) (height B) (samples B) ^^ iterations c B h)
            (seed (samples B) h)"
    by (rule iterations_funpow)
  show "recon_step c (width B) (height B) (samples B) (reconstruct c B h)
          = reconstruct c B h"
    by (rule reconstruct_fixed)
  show "recon_step c (width B) (height B) (samples B)
          ((recon_step c (width B) (height B) (samples B) ^^ k) (seed (samples B) h))
        \<noteq> (recon_step c (width B) (height B) (samples B) ^^ k) (seed (samples B) h)"
    if "k < iterations c B h" for k
    using that by (rule iterations_least)
next
  let ?n = "width B * height B" and ?I = "samples B"
  let ?M = "seed ?I h"
  have len: "length ?I = ?n" and pos: "0 < ?n"
    using assms by (simp_all add: valid_buffer_def)
  show "iterations c B h \<le> 255 * ?n"
  proof (cases "0 \<le> h")
    case True
    have under: "under_mask ?n ?I ?M"
      using True len by (simp add: under_mask_def seed_under) (simp add: seed_def)
    have "recon_gap ?n ?I ?M = (\<Sum>i<?n. unat (?I ! i) - unat (?M ! i))"
      using under by (simp add: recon_gap_def)
    also have "\<dots> \<le> (\<Sum>i<?n. 255)"
    proof (rule sum_mono)
      fix i
      show "unat (?I ! i) - unat (?M ! i) \<le> 255"
        using unat_sample_le [of "?I ! i"] by simp
    qed
    finally have "recon_gap ?n ?I ?M \<le> 255 * ?n" by simp
    moreover have "iterations c B h \<le> 0 + recon_gap (min ?n (length ?I)) ?I ?M"
      unfolding iterations_def by (rule recon_loop_bound)
    ultimately show ?thesis using len by simp
  next
    case False
    then have "\<forall>i<?n. ?I ! i \<le> ?M ! i"
      using len by (simp add: seed_above)
    with len have step: "recon_step c (width B) (height B) ?I ?M = ?I"
      by (rule recon_step_above_mask)
    have fixed: "recon_step c (width B) (height B) ?I ?I = ?I"
      using len by (rule recon_step_above_mask) simp
    have "iterations c B h \<le> 1"
    proof (cases "?M = ?I")
      case True
      then show ?thesis
        using fixed by (simp add: iterations_def recon_loop_fixed)
    next
      case False
      then show ?thesis
        using step fixed by (simp add: iterations_def recon_loop_changed recon_loop_fixed)
    qed
    moreover have "Suc 0 \<le> ?n" using pos by (rule Suc_leI)
    then have "1 \<le> 255 * ?n" by linarith
    ultimately show ?thesis by (rule order_trans)
  qed
qed

theorem iterations_bound_witness:
  "iterations Conn4 step_2x1 2 \<le> 255 * (2 * 1)"
proof -
  have "valid_buffer step_2x1" by (simp add: valid_buffer_def step_2x1_def)
  then show ?thesis
    using iterations_bound [of step_2x1 Conn4 2] by (simp add: step_2x1_def)
qed

end
